theory Spec2Isabelle
  imports Complex_Main "HOL-Library.AList"
begin

section \<open>Python values used by the analyzer\<close>

text \<open>
  A Python \<open>str\<close> is a sequence of code points. It is modelled by \<open>string\<close> with one
  \<open>char\<close> per code point, so \<open>length\<close> counts what Python's \<open>len\<close> counts; the
  model covers the code points 0 to 255 (the letter o-umlaut of the root in the examples is
  code point 0xF6).
\<close>

text \<open>\<open>str.isspace\<close> on the code points below 256; \<open>strip()\<close> and \<open>split()\<close> use it.\<close>

definition is_space :: "char \<Rightarrow> bool" where
  "is_space c =
     (let n = (of_char c :: nat)
      in (9 \<le> n \<and> n \<le> 13) \<or> (28 \<le> n \<and> n \<le> 32) \<or> n = 133 \<or> n = 160)"

text \<open>
  \<open>str.lower\<close> on the code points below 256: the cased capitals are A to Z and 0xC0 to 0xDE
  without the multiplication sign 0xD7, each 32 below its small letter.
\<close>

definition lower_char :: "char \<Rightarrow> char" where
  "lower_char c =
     (let n = (of_char c :: nat)
      in if (65 \<le> n \<and> n \<le> 90) \<or> (192 \<le> n \<and> n \<le> 222 \<and> n \<noteq> 215)
         then char_of (n + 32) else c)"

definition str_lower :: "string \<Rightarrow> string" where
  "str_lower s = map lower_char s"

definition str_strip :: "string \<Rightarrow> string" where
  "str_strip s = rev (dropWhile is_space (rev (dropWhile is_space s)))"

text \<open>\<open>s.split(sep)\<close> for a separator of one character: empty fields are kept.\<close>

fun split_sep :: "char \<Rightarrow> string \<Rightarrow> string list" where
  "split_sep sep [] = [[]]"
| "split_sep sep (c # cs) =
     (if c = sep then [] # split_sep sep cs
      else (case split_sep sep cs of
              [] \<Rightarrow> [[c]]
            | w # ws \<Rightarrow> (c # w) # ws))"

text \<open>\<open>s.split()\<close>: runs of white space separate the tokens, no empty token.\<close>

fun ws_tokens :: "string \<Rightarrow> string \<Rightarrow> string list" where
  "ws_tokens cur [] = (if cur = [] then [] else [cur])"
| "ws_tokens cur (c # cs) =
     (if is_space c then (if cur = [] then ws_tokens [] cs else cur # ws_tokens [] cs)
      else ws_tokens (cur @ [c]) cs)"

definition split_ws :: "string \<Rightarrow> string list" where
  "split_ws s = ws_tokens [] s"

definition startswith :: "string \<Rightarrow> string \<Rightarrow> bool" where
  "startswith word prefix = (take (length prefix) word = prefix)"

text \<open>The exceptions that the modelled code can let escape.\<close>

datatype exn =
    StopIteration
  | UnicodeDecodeError
  | ReError
  | TypeError
  | RecursionError
  | ValueError string

text \<open>
  Sequencing of loop bodies that extend one result list: the first body that raises ends
  the loop with its exception.
\<close>

fun collect :: "('e + 'a list) list \<Rightarrow> 'e + 'a list" where
  "collect [] = Inr []"
| "collect (x # xs) =
     (case x of
        Inl e \<Rightarrow> Inl e
      | Inr ys \<Rightarrow> (case collect xs of Inl e \<Rightarrow> Inl e | Inr zs \<Rightarrow> Inr (ys @ zs)))"

section \<open>dataloader.py\<close>

text \<open>
  A dictionary entry is the dict \<open>{"type": "root", "flags": set(...), "bool": True}\<close>.
  The flag set is kept as a duplicate-free list: the order in which Python iterates a set
  of strings is not fixed, and the list stands for whichever order it takes.
  A rule is the dict \<open>{"strip": ..., "add": ..., "cond": ...}\<close>. Python dicts keep
  insertion order, so both tables are association lists.
\<close>

record entry =
  entry_type :: string
  flags :: "string list"
  entry_bool :: bool

record rule =
  strip :: string
  add :: string
  cond :: string

type_synonym lexicon = "(string \<times> entry) list"
type_synonym ruleset = "(string \<times> rule list) list"

text \<open>
  What \<open>open(path, encoding="utf-8")\<close> and reading meet at a path: a name that \<open>open\<close>
  itself rejects (a name with an embedded NUL character: \<open>ValueError\<close>, which is no
  \<open>OSError\<close>), no file, a file that cannot be opened (both raise an \<open>OSError\<close>), bytes
  that are not UTF-8 (reading raises \<open>UnicodeDecodeError\<close>, a \<open>ValueError\<close>), or the lines
  of the text, each as the file iterator yields it.
\<close>

datatype file_state = BadName | Missing | Unreadable | Undecodable | Lines "string list"

type_synonym filesystem = "string \<Rightarrow> file_state"

text \<open>
  \<open>os.path.exists(path)\<close>: false where there is no file and also where the name is
  rejected (it catches the \<open>ValueError\<close>). Both loaders call it only to print a message.
\<close>

definition path_exists :: "filesystem \<Rightarrow> string \<Rightarrow> bool" where
  "path_exists fs path =
     (case fs path of BadName \<Rightarrow> False | Missing \<Rightarrow> False | _ \<Rightarrow> True)"

definition null_byte_error :: exn where
  "null_byte_error = ValueError ''embedded null byte''"

fun load_dic_lines :: "lexicon \<Rightarrow> string list \<Rightarrow> lexicon" where
  "load_dic_lines dictionary [] = dictionary"
| "load_dic_lines dictionary (line # ls) =
     (let line = str_strip line
      in if line = [] then load_dic_lines dictionary ls
         else
           (let parts = split_sep (CHR ''/'') line;
                word = hd parts
            in if length parts > 1
               then load_dic_lines
                      (AList.update word
                         \<lparr>entry_type = ''root'',
                          flags = remdups (split_sep (CHR '','') (parts ! 1)),
                          entry_bool = True\<rparr> dictionary) ls
               else load_dic_lines
                      (AList.update word
                         \<lparr>entry_type = ''root'', flags = [], entry_bool = True\<rparr>
                         dictionary) ls))"

text \<open>
  The result of a loader is \<open>Inl\<close> an escaping exception or \<open>Inr\<close> the returned Python
  value, where \<open>None\<close> stands for Python's \<open>None\<close> (which the constructor tests for) and
  \<open>Some d\<close> for the dict \<open>d\<close>. The two \<open>print\<close> calls write to standard output only and
  are left out. \<open>next(f)\<close> skips the header line and raises \<open>StopIteration\<close> when the
  file has no line; the handler catches \<open>OSError\<close> only, so neither that exception nor
  the \<open>ValueError\<close> for a rejected name is caught.
\<close>

definition load_dic :: "filesystem \<Rightarrow> string \<Rightarrow> exn + lexicon option" where
  "load_dic fs path =
     (case fs path of
        BadName \<Rightarrow> Inl null_byte_error
      | Missing \<Rightarrow> Inr (Some [])
      | Unreadable \<Rightarrow> Inr (Some [])
      | Undecodable \<Rightarrow> Inl UnicodeDecodeError
      | Lines ls \<Rightarrow>
          (case ls of
             [] \<Rightarrow> Inl StopIteration
           | header # rest \<Rightarrow> Inr (Some (load_dic_lines [] rest))))"

text \<open>\<open>if flag not in rules: rules[flag] = []\<close> followed by \<open>rules[flag].append(r)\<close>.\<close>

definition append_rule :: "string \<Rightarrow> rule \<Rightarrow> ruleset \<Rightarrow> ruleset" where
  "append_rule key r table =
     (case map_of table key of
        None \<Rightarrow> table @ [(key, [r])]
      | Some rs \<Rightarrow> AList.update key (rs @ [r]) table)"

fun load_aff_lines :: "ruleset \<Rightarrow> string list \<Rightarrow> ruleset" where
  "load_aff_lines rules [] = rules"
| "load_aff_lines rules (line # ls) =
     (let parts = split_ws line
      in if parts = [] then load_aff_lines rules ls
         else if hd parts = ''SFX''
         then
           (if length parts < 5 then load_aff_lines rules ls
            else
              (let flag = parts ! 1;
                   strip0 = parts ! 2;
                   add0 = parts ! 3;
                   condition = parts ! 4;
                   strip1 = (if strip0 = ''0'' then [] else strip0);
                   add1 = (if add0 = ''0'' then [] else add0)
               in load_aff_lines
                    (append_rule flag \<lparr>strip = strip1, add = add1, cond = condition\<rparr> rules)
                    ls))
         else load_aff_lines rules ls)"

definition load_aff :: "filesystem \<Rightarrow> string \<Rightarrow> exn + ruleset option" where
  "load_aff fs path =
     (case fs path of
        BadName \<Rightarrow> Inl null_byte_error
      | Missing \<Rightarrow> Inr (Some [])
      | Unreadable \<Rightarrow> Inr (Some [])
      | Undecodable \<Rightarrow> Inl UnicodeDecodeError
      | Lines ls \<Rightarrow> Inr (Some (load_aff_lines [] ls)))"

section \<open>engine.py\<close>

record MorphAnalyzer =
  dictionary :: lexicon
  rules :: ruleset
  rules_by_add :: ruleset

definition build_reverse_rules :: "ruleset \<Rightarrow> ruleset" where
  "build_reverse_rules rs =
     (if rs = [] then []
      else fold (\<lambda>(flag, frules) acc. fold (\<lambda>r acc'. append_rule (add r) r acc') frules acc)
             rs [])"

text \<open>
  \<open>__init__\<close>: the paths are \<open>_ROOT_PATH / "data" / "tr_TR.dic"\<close> and \<open>.aff\<close>; the
  handler \<open>except Exception\<close> prints and raises the exception again.
\<close>

definition load_error :: exn where
  "load_error = ValueError ''Dictionary or rules could not be loaded''"

definition MorphAnalyzer_init :: "filesystem \<Rightarrow> string \<Rightarrow> exn + MorphAnalyzer" where
  "MorphAnalyzer_init fs root_path =
     (case load_dic fs (root_path @ ''/data/tr_TR.dic'') of
        Inl e \<Rightarrow> Inl e
      | Inr d \<Rightarrow>
          (case load_aff fs (root_path @ ''/data/tr_TR.aff'') of
             Inl e \<Rightarrow> Inl e
           | Inr r \<Rightarrow>
               (case (d, r) of
                  (Some d', Some r') \<Rightarrow>
                    Inr \<lparr>dictionary = d', rules = r', rules_by_add = build_reverse_rules r'\<rparr>
                | _ \<Rightarrow> Inl load_error)))"

text \<open>
  Python's \<open>re\<close> module is a library, not part of this program; it is a parameter of the
  model. An engine compiles a pattern to a matcher on subjects, or rejects it: \<open>None\<close> is
  \<open>re.error\<close>, raised by \<open>re.match\<close> for a pattern that is not a regular expression.
  \<open>m s\<close> tells whether \<open>re.match(pattern, s)\<close> finds a match at the start of \<open>s\<close>.
\<close>

type_synonym regex_engine = "string \<Rightarrow> (string \<Rightarrow> bool) option"

definition re_match :: "regex_engine \<Rightarrow> string \<Rightarrow> string \<Rightarrow> exn + bool" where
  "re_match re pattern s =
     (case re pattern of None \<Rightarrow> Inl ReError | Some m \<Rightarrow> Inr (m s))"

text \<open>
  The loop over \<open>self.rules_by_add[part]\<close> in \<open>_recursive_split\<close>, which sets \<open>valid\<close>
  and breaks at the first rule whose condition is \<open>"."\<close> or matches the stem.
\<close>

fun valid_for :: "regex_engine \<Rightarrow> string \<Rightarrow> rule list \<Rightarrow> exn + bool" where
  "valid_for re stem [] = Inr False"
| "valid_for re stem (r # rs) =
     (if cond r = ''.'' then Inr True
      else (case re_match re (cond r) stem of
              Inl e \<Rightarrow> Inl e
            | Inr m \<Rightarrow> if m then Inr True else valid_for re stem rs))"

text \<open>
  \<open>_recursive_split\<close>: \<open>i\<close> runs over \<open>range(1, len(suffix) + 1)\<close>; the two \<open>print\<close>
  calls are left out. The interpreter's recursion limit is left out here and made explicit
  in \<open>recursive_split_within\<close> below.
\<close>

function recursive_split ::
  "regex_engine \<Rightarrow> MorphAnalyzer \<Rightarrow> string \<Rightarrow> string \<Rightarrow> exn + string list list" where
  "recursive_split re self stem suffix =
     (if suffix = [] then Inr [[]]
      else collect (map
        (\<lambda>i. case map_of (rules_by_add self) (take i suffix) of
                None \<Rightarrow> Inr []
              | Some rs \<Rightarrow>
                  (case valid_for re stem rs of
                     Inl e \<Rightarrow> Inl e
                   | Inr valid \<Rightarrow>
                       if valid
                       then (case recursive_split re self (stem @ take i suffix) (drop i suffix) of
                               Inl e \<Rightarrow> Inl e
                             | Inr sub_results \<Rightarrow> Inr (map ((#) (take i suffix)) sub_results))
                       else Inr []))
        [1..<length suffix + 1]))"
  by pat_completeness auto
termination
  by (relation "measure (\<lambda>(re, self, stem, suffix). length suffix)") auto

declare recursive_split.simps [simp del]

text \<open>
  \<open>_select_best_match\<close>. The known suffixes are the non-empty \<open>add\<close> texts of all rules
  and seven single letters. The score of a candidate is an \<open>int\<close> to which
  \<open>len(candidate) * 0.5\<close> is added; multiples of one half are exact in binary floating
  point (up to 2 to the 52), so the score is a rational number here. The counter
  \<open>valid_parts_count\<close> is never read and is left out.
\<close>

definition buffer_letters :: "string list" where
  "buffer_letters = [''y'', ''n'', ''s'', ''m'', ''k'', ''z'', ''l'']"

definition known_suffixes :: "MorphAnalyzer \<Rightarrow> string set" where
  "known_suffixes self =
     set (filter (\<lambda>a. a \<noteq> []) (map add (concat (map snd (rules self)))))
       \<union> set buffer_letters"

fun score_parts :: "string set \<Rightarrow> int \<Rightarrow> string list \<Rightarrow> int" where
  "score_parts known score [] = score"
| "score_parts known score (part # ps) =
     (if part \<in> known then score_parts known (score + 10) ps
      else if length part = 1 then score_parts known (score - 1) ps
      else score_parts known (score - 5) ps)"

definition candidate_score :: "MorphAnalyzer \<Rightarrow> string list \<Rightarrow> rat" where
  "candidate_score self candidate =
     of_int (score_parts (known_suffixes self) 0 candidate)
       + of_nat (length candidate) * (1 / 2)"

text \<open>
  \<open>list.sort(key=..., reverse=True)\<close> is stable: it is the stable sort on the negated key.
\<close>

definition select_best_match :: "MorphAnalyzer \<Rightarrow> string list list \<Rightarrow> string list list" where
  "select_best_match self list_of_possible_matches =
     (if list_of_possible_matches = [] then []
      else
        (let scored_candidates =
               sort_key (\<lambda>x. - fst x)
                 (map (\<lambda>candidate. (candidate_score self candidate, candidate))
                    list_of_possible_matches)
         in if scored_candidates = [] then []
            else
              (let best_score = fst (hd scored_candidates)
               in map snd (filter (\<lambda>(s, cand). s = best_score) scored_candidates))))"

text \<open>The elements of the list that \<open>analyze\<close> returns: a dict or a message string.\<close>

record analysis_record =
  root_r :: string
  stem :: string
  suffixes :: "string list"
  flag_number :: string

datatype analysis = Record analysis_record | Message string

text \<open>
  The strip step of \<open>analyze\<close>: \<open>if strip and re.match(strip, modified_root):
  modified_root = modified_root[: -len(strip)]\<close>.
\<close>

definition modified_root :: "regex_engine \<Rightarrow> string \<Rightarrow> string \<Rightarrow> exn + string" where
  "modified_root re strp root_s =
     (if strp \<noteq> []
      then (case re_match re strp root_s of
              Inl e \<Rightarrow> Inl e
            | Inr m \<Rightarrow> Inr (if m then take (length root_s - length strp) root_s else root_s))
      else Inr root_s)"

text \<open>The body of the loop over the rules of one flag, for one root and one word.\<close>

definition analyze_rule ::
  "regex_engine \<Rightarrow> MorphAnalyzer \<Rightarrow> string \<Rightarrow> string \<Rightarrow> string \<Rightarrow> rule \<Rightarrow> exn + analysis list" where
  "analyze_rule re self word root_s flag r =
     (case (if cond r \<noteq> ''.'' then re_match re (cond r) root_s else Inr True) of
        Inl e \<Rightarrow> Inl e
      | Inr ok \<Rightarrow>
          if \<not> ok then Inr []
          else
            (case modified_root re (strip r) root_s of
               Inl e \<Rightarrow> Inl e
             | Inr mroot \<Rightarrow>
                 (let expected_word = mroot @ add r
                  in if expected_word = word
                     then
                       (case recursive_split re self mroot (add r) of
                          Inl e \<Rightarrow> Inl e
                        | Inr possible_splits \<Rightarrow>
                            (let best_match0 = select_best_match self possible_splits;
                                 best_match =
                                   (if best_match0 = [] then [[add r]] else best_match0)
                             in Inr (map (\<lambda>possible_split.
                                            Record \<lparr>root_r = root_s, stem = add r,
                                                    suffixes = possible_split,
                                                    flag_number = flag\<rparr>)
                                       possible_splits)))
                     else Inr [])))"

definition analyze_flag ::
  "regex_engine \<Rightarrow> MorphAnalyzer \<Rightarrow> string \<Rightarrow> string \<Rightarrow> string \<Rightarrow> exn + analysis list" where
  "analyze_flag re self word root_s flag =
     (case map_of (rules self) flag of
        None \<Rightarrow> Inr []
      | Some rs \<Rightarrow> collect (map (analyze_rule re self word root_s flag) rs))"

definition analyze_root ::
  "regex_engine \<Rightarrow> MorphAnalyzer \<Rightarrow> string \<Rightarrow> string \<times> entry \<Rightarrow> exn + analysis list" where
  "analyze_root re self word item =
     (let root_s = fst item; fl = snd item
      in if length root_s \<ge> length word then Inr []
         else if \<not> startswith word root_s then Inr []
         else collect (map (analyze_flag re self word root_s) (flags fl)))"

definition analyze_word ::
  "regex_engine \<Rightarrow> MorphAnalyzer \<Rightarrow> string \<Rightarrow> exn + analysis list" where
  "analyze_word re self word = collect (map (analyze_root re self word) (dictionary self))"

definition no_analysis :: "string \<Rightarrow> string" where
  "no_analysis word = ''No analysis found for '' @ [CHR 0x27] @ word @ [CHR 0x27]"

text \<open>
  The list \<open>[word.lower() for word in sentences.split(" ")]\<close> of the words that
  \<open>analyze\<close> loops over.
\<close>

definition words_of :: "string \<Rightarrow> string list" where
  "words_of sentences = map str_lower (split_sep (CHR '' '') sentences)"

text \<open>
  \<open>analyze\<close>. The \<open>return\<close> stands after the loop over the words, where \<open>word\<close> is the
  last word (or its initial value \<open>""\<close>). The clause
  \<open>except MorphologicalException.ANALYZE_ERROR\<close> names a member of an \<open>Enum\<close>, not an
  exception class: when an exception reaches it, matching raises \<open>TypeError\<close>.
\<close>

definition analyze :: "regex_engine \<Rightarrow> MorphAnalyzer \<Rightarrow> string \<Rightarrow> exn + analysis list" where
  "analyze re self sentences =
     (let list_of_sentences = words_of sentences;
          word = (if list_of_sentences = [] then [] else last list_of_sentences)
      in case collect (map (analyze_word re self) list_of_sentences) of
           Inl e \<Rightarrow> Inl TypeError
         | Inr analyses \<Rightarrow>
             Inr (if analyses \<noteq> [] then analyses else [Message (no_analysis word)]))"

section \<open>engine.py under the interpreter's recursion limit\<close>

text \<open>
  \<open>_recursive_split\<close> takes one Python frame for each part of a split, and the
  interpreter raises \<open>RecursionError\<close> when its recursion limit is reached. The limit is
  modelled as a bound on the nesting: \<open>frames\<close> is the number of nested calls of
  \<open>_recursive_split\<close>, the calls made inside them included, for which the interpreter
  has room when \<open>analyze\<close> runs, and the next nested call raises. The functions below are
  the ones above with that bound; the \<open>except\<close> clause of \<open>analyze\<close> turns the
  \<open>RecursionError\<close> into the same \<open>TypeError\<close>.
\<close>

function recursive_split_within ::
  "nat \<Rightarrow> regex_engine \<Rightarrow> MorphAnalyzer \<Rightarrow> string \<Rightarrow> string \<Rightarrow> exn + string list list" where
  "recursive_split_within frames re self stem_s suffix =
     (if frames = 0 then Inl RecursionError
      else if suffix = [] then Inr [[]]
      else collect (map
        (\<lambda>i. case map_of (rules_by_add self) (take i suffix) of
                None \<Rightarrow> Inr []
              | Some rs \<Rightarrow>
                  (case valid_for re stem_s rs of
                     Inl e \<Rightarrow> Inl e
                   | Inr valid \<Rightarrow>
                       if valid
                       then (case recursive_split_within (frames - 1) re self
                                    (stem_s @ take i suffix) (drop i suffix) of
                               Inl e \<Rightarrow> Inl e
                             | Inr sub_results \<Rightarrow> Inr (map ((#) (take i suffix)) sub_results))
                       else Inr []))
        [1..<length suffix + 1]))"
  by pat_completeness auto
termination
  by (relation "measure (\<lambda>(frames, re, self, stem_s, suffix). length suffix)") auto

declare recursive_split_within.simps [simp del]

definition analyze_rule_within ::
  "nat \<Rightarrow> regex_engine \<Rightarrow> MorphAnalyzer \<Rightarrow> string \<Rightarrow> string \<Rightarrow> string \<Rightarrow> rule
     \<Rightarrow> exn + analysis list" where
  "analyze_rule_within frames re self word root_s flag r =
     (case (if cond r \<noteq> ''.'' then re_match re (cond r) root_s else Inr True) of
        Inl e \<Rightarrow> Inl e
      | Inr ok \<Rightarrow>
          if \<not> ok then Inr []
          else
            (case modified_root re (strip r) root_s of
               Inl e \<Rightarrow> Inl e
             | Inr mroot \<Rightarrow>
                 (let expected_word = mroot @ add r
                  in if expected_word = word
                     then
                       (case recursive_split_within frames re self mroot (add r) of
                          Inl e \<Rightarrow> Inl e
                        | Inr possible_splits \<Rightarrow>
                            (let best_match0 = select_best_match self possible_splits;
                                 best_match =
                                   (if best_match0 = [] then [[add r]] else best_match0)
                             in Inr (map (\<lambda>possible_split.
                                            Record \<lparr>root_r = root_s, stem = add r,
                                                    suffixes = possible_split,
                                                    flag_number = flag\<rparr>)
                                       possible_splits)))
                     else Inr [])))"

definition analyze_flag_within ::
  "nat \<Rightarrow> regex_engine \<Rightarrow> MorphAnalyzer \<Rightarrow> string \<Rightarrow> string \<Rightarrow> string \<Rightarrow> exn + analysis list" where
  "analyze_flag_within frames re self word root_s flag =
     (case map_of (rules self) flag of
        None \<Rightarrow> Inr []
      | Some rs \<Rightarrow> collect (map (analyze_rule_within frames re self word root_s flag) rs))"

definition analyze_root_within ::
  "nat \<Rightarrow> regex_engine \<Rightarrow> MorphAnalyzer \<Rightarrow> string \<Rightarrow> string \<times> entry \<Rightarrow> exn + analysis list" where
  "analyze_root_within frames re self word item =
     (let root_s = fst item; fl = snd item
      in if length root_s \<ge> length word then Inr []
         else if \<not> startswith word root_s then Inr []
         else collect (map (analyze_flag_within frames re self word root_s) (flags fl)))"

definition analyze_word_within ::
  "nat \<Rightarrow> regex_engine \<Rightarrow> MorphAnalyzer \<Rightarrow> string \<Rightarrow> exn + analysis list" where
  "analyze_word_within frames re self word =
     collect (map (analyze_root_within frames re self word) (dictionary self))"

definition analyze_within ::
  "nat \<Rightarrow> regex_engine \<Rightarrow> MorphAnalyzer \<Rightarrow> string \<Rightarrow> exn + analysis list" where
  "analyze_within frames re self sentences =
     (let list_of_sentences = words_of sentences;
          word = (if list_of_sentences = [] then [] else last list_of_sentences)
      in case collect (map (analyze_word_within frames re self) list_of_sentences) of
           Inl e \<Rightarrow> Inl TypeError
         | Inr analyses \<Rightarrow>
             Inr (if analyses \<noteq> [] then analyses else [Message (no_analysis word)]))"

section \<open>A sample regular-expression engine\<close>

text \<open>
  A sample engine for concrete runs. It agrees with Python's \<open>re\<close> on the patterns that
  the examples use: a pattern made of ASCII letters and digits matches exactly the subjects
  that start with it, and the pattern \<open>"("\<close> is rejected (unbalanced parenthesis). No
  statement depends on what it answers for other patterns.
\<close>

definition plain_char :: "char \<Rightarrow> bool" where
  "plain_char c =
     (let n = (of_char c :: nat)
      in (48 \<le> n \<and> n \<le> 57) \<or> (65 \<le> n \<and> n \<le> 90) \<or> (97 \<le> n \<and> n \<le> 122))"

definition re_sample :: regex_engine where
  "re_sample pattern =
     (if list_all plain_char pattern then Some (\<lambda>s. startswith s pattern) else None)"

section \<open>Sample data\<close>

text \<open>
  The lexicon and the rule set of the example: the root g-o-umlaut-r with the flag F1, and
  under F1 the one rule with an empty strip, the add text \<open>dim\<close> and the condition \<open>.\<close>.
\<close>

definition gor :: string where
  "gor = [CHR ''g'', CHR 0xF6, CHR ''r'']"

definition flagged :: "string list \<Rightarrow> entry" where
  "flagged fl = \<lparr>entry_type = ''root'', flags = fl, entry_bool = True\<rparr>"

definition analyzer_of :: "lexicon \<Rightarrow> ruleset \<Rightarrow> MorphAnalyzer" where
  "analyzer_of d rs = \<lparr>dictionary = d, rules = rs, rules_by_add = build_reverse_rules rs\<rparr>"

definition gor_analyzer :: MorphAnalyzer where
  "gor_analyzer =
     analyzer_of [(gor, flagged [''F1''])]
       [(''F1'', [\<lparr>strip = [], add = ''dim'', cond = ''.''\<rparr>])]"

text \<open>The same root with three rules under F1, so that \<open>dim\<close> splits in two ways.\<close>

definition gor_split_analyzer :: MorphAnalyzer where
  "gor_split_analyzer =
     analyzer_of [(gor, flagged [''F1''])]
       [(''F1'', [\<lparr>strip = [], add = ''dim'', cond = ''.''\<rparr>,
                  \<lparr>strip = [], add = ''di'', cond = ''.''\<rparr>,
                  \<lparr>strip = [], add = ''m'', cond = ''g''\<rparr>])]"

text \<open>
  A root \<open>aa\<close> and a rule that strips \<open>a\<close> and adds \<open>ab\<close>; a root \<open>ab\<close> and a rule
  that strips \<open>a\<close> and adds \<open>bc\<close>; a root \<open>ab\<close> and a rule whose condition is \<open>(\<close>.
\<close>

definition aa_analyzer :: MorphAnalyzer where
  "aa_analyzer =
     analyzer_of [(''aa'', flagged [''F''])]
       [(''F'', [\<lparr>strip = ''a'', add = ''ab'', cond = ''.''\<rparr>])]"

definition ab_analyzer :: MorphAnalyzer where
  "ab_analyzer =
     analyzer_of [(''ab'', flagged [''F''])]
       [(''F'', [\<lparr>strip = ''a'', add = ''bc'', cond = ''.''\<rparr>])]"


text \<open>A root \<open>b\<close> with the add texts \<open>a\<close> and \<open>aaa\<close>: the second splits into three parts.\<close>

definition deep_analyzer :: MorphAnalyzer where
  "deep_analyzer =
     analyzer_of [(''b'', flagged [''F''])]
       [(''F'', [\<lparr>strip = [], add = ''a'', cond = ''.''\<rparr>,
                 \<lparr>strip = [], add = ''aaa'', cond = ''.''\<rparr>])]"

text \<open>
  File systems: the two data files with the given lines, nothing else; and no file at all.
  A name with a NUL character is rejected in both.
\<close>

definition data_files :: "string list \<Rightarrow> string list \<Rightarrow> filesystem" where
  "data_files dic aff path =
     (if CHR 0x00 \<in> set path then BadName
      else if path = ''/data/tr_TR.dic'' then Lines dic
      else if path = ''/data/tr_TR.aff'' then Lines aff
      else Missing)"

definition no_files :: filesystem where
  "no_files path = (if CHR 0x00 \<in> set path then BadName else Missing)"

definition nul_path :: string where
  "nul_path = [CHR ''a'', CHR 0x00, CHR ''b'']"

section \<open>Notions used in the statements\<close>

text \<open>All rules of a table, under whatever key.\<close>

definition all_rules :: "ruleset \<Rightarrow> rule set" where
  "all_rules table = (\<Union>item \<in> set table. set (snd item))"


section \<open>Evaluation rules\<close>

lemmas sample_defs =
  gor_def flagged_def analyzer_of_def build_reverse_rules_def append_rule_def

lemmas analyze_defs =
  analyze_def words_of_def analyze_word_def analyze_root_def analyze_flag_def analyze_rule_def
  modified_root_def startswith_def str_lower_def lower_char_def char_of_def bit_0
  no_analysis_def Let_def

section \<open>Loops that collect results\<close>

lemma collect_all_empty: "\<forall>x\<in>set xs. x = Inr [] \<Longrightarrow> collect xs = Inr []"
  by (induction xs) simp_all

lemma collect_Inr_concat:
  "collect xs = Inr ys \<Longrightarrow> \<exists>yss. xs = map Inr yss \<and> ys = concat yss"
proof (induction xs arbitrary: ys)
  case Nil
  then show ?case by simp
next
  case (Cons x xs)
  from Cons.prems obtain y zs where x: "x = Inr y" and c: "collect xs = Inr zs" and ys: "ys = y @ zs"
    by (auto split: sum.splits)
  from Cons.IH [OF c] obtain yss where "xs = map Inr yss" "zs = concat yss" by blast
  with x ys have "x # xs = map Inr (y # yss) \<and> ys = concat (y # yss)" by simp
  then show ?case by (rule exI)
qed

lemma collect_member:
  assumes "collect xs = Inr ys" and "y \<in> set ys"
  shows "\<exists>zs. Inr zs \<in> set xs \<and> y \<in> set zs"
proof -
  from collect_Inr_concat [OF assms(1)] obtain yss where "xs = map Inr yss" "ys = concat yss"
    by blast
  with assms(2) show ?thesis by auto
qed

lemma collect_map_member:
  assumes "collect (map f xs) = Inr ys" and "y \<in> set ys"
  shows "\<exists>x zs. x \<in> set xs \<and> f x = Inr zs \<and> y \<in> set zs"
proof -
  from collect_member [OF assms] obtain zs where "Inr zs \<in> set (map f xs)" "y \<in> set zs"
    by blast
  then have "Inr zs \<in> f ` set xs" by (simp only: set_map)
  then obtain x where "x \<in> set xs" "Inr zs = f x" by (rule imageE)
  then have "x \<in> set xs \<and> f x = Inr zs \<and> y \<in> set zs" using \<open>y \<in> set zs\<close> by simp
  then show ?thesis by blast
qed

lemma split_sep_not_Nil: "split_sep sep s \<noteq> []"
  by (induction s) (simp_all split: list.splits)


lemma recursive_split_concat:
  "recursive_split re self st suffix = Inr cands \<Longrightarrow> c \<in> set cands \<Longrightarrow> concat c = suffix"
proof (induction re self st suffix arbitrary: cands c rule: recursive_split.induct)
  case (1 re self st suffix)
  show ?case
  proof (cases "suffix = []")
    case True
    with "1.prems" show ?thesis by (auto simp: recursive_split.simps [of re self st "[]"])
  next
    case False
    let ?body = "\<lambda>i. case map_of (rules_by_add self) (take i suffix) of
                None \<Rightarrow> Inr []
              | Some rs \<Rightarrow>
                  (case valid_for re st rs of
                     Inl e \<Rightarrow> Inl e
                   | Inr valid \<Rightarrow>
                       if valid
                       then (case recursive_split re self (st @ take i suffix) (drop i suffix) of
                               Inl e \<Rightarrow> Inl e
                             | Inr sub_results \<Rightarrow> Inr (map ((#) (take i suffix)) sub_results))
                       else Inr [])"
    from False "1.prems"(1) have "collect (map ?body [1..<length suffix + 1]) = Inr cands"
      by (simp add: recursive_split.simps [of re self st suffix])
    from collect_member [OF this "1.prems"(2)] obtain zs
      where zs: "Inr zs \<in> set (map ?body [1..<length suffix + 1])" and c: "c \<in> set zs"
      by blast
    from zs have "Inr zs \<in> ?body ` set [1..<length suffix + 1]"
      by (simp only: set_map)
    then obtain i where i: "i \<in> set [1..<length suffix + 1]" and b': "Inr zs = ?body i"
      by (rule imageE)
    from b' have b: "?body i = Inr zs" by (rule sym)
    from b c obtain rs sub c' where rs: "map_of (rules_by_add self) (take i suffix) = Some rs"
      and v: "valid_for re st rs = Inr True"
      and sub: "recursive_split re self (st @ take i suffix) (drop i suffix) = Inr sub"
      and c': "c' \<in> set sub" "c = take i suffix # c'"
      by (auto split: option.splits sum.splits if_splits)
    from "1.IH" [OF False i rs v _ sub c'(1)] have "concat c' = drop i suffix" by simp
    with c'(2) show ?thesis by simp
  qed
qed


lemma analyze_rule_record:
  assumes "analyze_rule re self word root_s flag r = Inr out" and "x \<in> set out"
  shows "\<exists>m cands ps. x = Record \<lparr>root_r = root_s, stem = add r, suffixes = ps, flag_number = flag\<rparr>
            \<and> modified_root re (strip r) root_s = Inr m \<and> m @ add r = word
            \<and> recursive_split re self m (add r) = Inr cands \<and> ps \<in> set cands"
  using assms
  by (auto simp: analyze_rule_def Let_def split: sum.splits if_splits)

lemma analyze_flag_record:
  assumes "analyze_flag re self word root_s flag = Inr out" and "x \<in> set out"
  shows "\<exists>rs r out'. map_of (rules self) flag = Some rs \<and> r \<in> set rs
            \<and> analyze_rule re self word root_s flag r = Inr out' \<and> x \<in> set out'"
proof (cases "map_of (rules self) flag")
  case None
  with assms show ?thesis by (simp add: analyze_flag_def)
next
  case (Some rs)
  with assms(1) have "collect (map (analyze_rule re self word root_s flag) rs) = Inr out"
    by (simp add: analyze_flag_def)
  from collect_map_member [OF this assms(2)] Some show ?thesis by blast
qed

lemma analyze_root_record:
  assumes "analyze_root re self word item = Inr out" and "x \<in> set out"
  shows "\<exists>flag out'. flag \<in> set (flags (snd item)) \<and> length (fst item) < length word
            \<and> startswith word (fst item)
            \<and> analyze_flag re self word (fst item) flag = Inr out' \<and> x \<in> set out'"
proof -
  from assms have g: "length (fst item) < length word" "startswith word (fst item)"
    by (auto simp: analyze_root_def Let_def split: if_splits)
  with assms(1) have "collect (map (analyze_flag re self word (fst item)) (flags (snd item))) = Inr out"
    by (simp add: analyze_root_def Let_def)
  from collect_map_member [OF this assms(2)] g show ?thesis by blast
qed

lemma analyze_word_record:
  assumes "analyze_word re self word = Inr out" and "x \<in> set out"
  shows "\<exists>item out'. item \<in> set (dictionary self)
            \<and> analyze_root re self word item = Inr out' \<and> x \<in> set out'"
proof -
  from assms(1) have "collect (map (analyze_root re self word) (dictionary self)) = Inr out"
    by (simp add: analyze_word_def)
  from collect_map_member [OF this assms(2)] show ?thesis by blast
qed

lemma words_of_not_Nil: "words_of s \<noteq> []"
  by (simp add: words_of_def split_sep_not_Nil)

lemma analyze_unfold:
  "analyze re self sentences =
     (case collect (map (analyze_word re self) (words_of sentences)) of
        Inl e \<Rightarrow> Inl TypeError
      | Inr analyses \<Rightarrow>
          Inr (if analyses \<noteq> [] then analyses
               else [Message (no_analysis (last (words_of sentences)))]))"
  by (simp add: analyze_def Let_def words_of_not_Nil)

lemma analyze_result:
  assumes "analyze re self sentences = Inr out"
  shows "\<exists>analyses. collect (map (analyze_word re self) (words_of sentences)) = Inr analyses
           \<and> out = (if analyses \<noteq> [] then analyses
                    else [Message (no_analysis (last (words_of sentences)))])"
proof (cases "collect (map (analyze_word re self) (words_of sentences))")
  case (Inl e)
  with assms show ?thesis by (simp add: analyze_unfold)
next
  case (Inr analyses)
  with assms show ?thesis by (simp add: analyze_unfold)
qed

lemma analyze_record_word:
  assumes "analyze re self sentences = Inr out" and "Record rr \<in> set out"
  shows "\<exists>w out'. w \<in> set (words_of sentences) \<and> analyze_word re self w = Inr out'
            \<and> Record rr \<in> set out'"
proof -
  from analyze_result [OF assms(1)] obtain analyses
    where c: "collect (map (analyze_word re self) (words_of sentences)) = Inr analyses"
      and o: "out = (if analyses \<noteq> [] then analyses
                     else [Message (no_analysis (last (words_of sentences)))])"
    by blast
  from o assms(2) have "Record rr \<in> set analyses" by (auto split: if_splits)
  from collect_map_member [OF c this] show ?thesis by blast
qed

text \<open>Every record of the result comes from one word, one lexicon item, one flag and one rule.\<close>

lemma analyze_record_origin:
  assumes "analyze re self sentences = Inr out" and "Record rr \<in> set out"
  shows "\<exists>w item rs r m cands.
           w \<in> set (words_of sentences) \<and> item \<in> set (dictionary self)
         \<and> length (fst item) < length w \<and> startswith w (fst item)
         \<and> flag_number rr \<in> set (flags (snd item))
         \<and> map_of (rules self) (flag_number rr) = Some rs \<and> r \<in> set rs
         \<and> root_r rr = fst item \<and> stem rr = add r
         \<and> modified_root re (strip r) (fst item) = Inr m \<and> m @ add r = w
         \<and> recursive_split re self m (add r) = Inr cands \<and> suffixes rr \<in> set cands"
proof -
  from analyze_record_word [OF assms] obtain w o1
    where w: "w \<in> set (words_of sentences)" "analyze_word re self w = Inr o1" "Record rr \<in> set o1"
    by blast
  from analyze_word_record [OF w(2,3)] obtain item o2
    where it: "item \<in> set (dictionary self)" "analyze_root re self w item = Inr o2"
      "Record rr \<in> set o2"
    by blast
  from analyze_root_record [OF it(2,3)] obtain flag o3
    where fl: "flag \<in> set (flags (snd item))" "length (fst item) < length w"
      "startswith w (fst item)" "analyze_flag re self w (fst item) flag = Inr o3"
      "Record rr \<in> set o3"
    by blast
  from analyze_flag_record [OF fl(4,5)] obtain rs r o4
    where ru: "map_of (rules self) flag = Some rs" "r \<in> set rs"
      "analyze_rule re self w (fst item) flag r = Inr o4" "Record rr \<in> set o4"
    by blast
  from analyze_rule_record [OF ru(3,4)] obtain m cands ps
    where rc: "Record rr = Record \<lparr>root_r = fst item, stem = add r, suffixes = ps, flag_number = flag\<rparr>"
      "modified_root re (strip r) (fst item) = Inr m" "m @ add r = w"
      "recursive_split re self m (add r) = Inr cands" "ps \<in> set cands"
    by blast
  from rc(1) have eq: "root_r rr = fst item" "stem rr = add r" "suffixes rr = ps" "flag_number rr = flag"
    by auto
  have "w \<in> set (words_of sentences) \<and> item \<in> set (dictionary self)
         \<and> length (fst item) < length w \<and> startswith w (fst item)
         \<and> flag_number rr \<in> set (flags (snd item))
         \<and> map_of (rules self) (flag_number rr) = Some rs \<and> r \<in> set rs
         \<and> root_r rr = fst item \<and> stem rr = add r
         \<and> modified_root re (strip r) (fst item) = Inr m \<and> m @ add r = w
         \<and> recursive_split re self m (add r) = Inr cands \<and> suffixes rr \<in> set cands"
    using w(1) it(1) fl(1,2,3) ru(1,2) rc(2-5) eq by simp
  then show ?thesis by (intro exI)
qed


section \<open>The loaders\<close>

text \<open>
  C10. For a dictionary file that exists but has no line, \<open>load_dic\<close> does not return an
  empty mapping: \<open>next(f)\<close> raises \<open>StopIteration\<close>, the handler for \<open>OSError\<close> does not
  catch it, and the exception reaches the caller.
\<close>

theorem empty_dic_file_raises:
  "fs path = Lines [] \<Longrightarrow>
   load_dic fs path = Inl StopIteration \<and> load_dic fs path \<noteq> Inr (Some [])"
  by (simp add: load_dic_def)

theorem empty_dic_file_raises_witness:
  "data_files [] [] ''/data/tr_TR.dic'' = Lines [] \<and>
   load_dic (data_files [] []) ''/data/tr_TR.dic'' = Inl StopIteration"
  using empty_dic_file_raises [of "data_files [] []" "''/data/tr_TR.dic''"]
  by (simp add: data_files_def)

text \<open>
  C8. Whenever \<open>load_dic\<close> or \<open>load_aff\<close> returns, it returns a mapping (possibly empty),
  never \<open>None\<close>. So the construction never raises the error of the check
  \<open>dictionary is None or rules is None\<close>, and when both tables load empty it yields an
  analyzer with empty tables.
\<close>

theorem loaders_never_none:
  "load_dic fs path \<noteq> Inr None \<and> load_aff fs path \<noteq> Inr None \<and>
   MorphAnalyzer_init fs root_path \<noteq> Inl load_error \<and>
   (load_dic fs (root_path @ ''/data/tr_TR.dic'') = Inr (Some []) \<and>
    load_aff fs (root_path @ ''/data/tr_TR.aff'') = Inr (Some []) \<longrightarrow>
    MorphAnalyzer_init fs root_path = Inr \<lparr>dictionary = [], rules = [], rules_by_add = []\<rparr>)"
  by (auto simp: load_dic_def load_aff_def MorphAnalyzer_init_def load_error_def
        null_byte_error_def build_reverse_rules_def
        split: file_state.splits list.splits sum.splits option.splits)

theorem loaders_never_none_witness:
  "load_dic no_files ''/data/tr_TR.dic'' = Inr (Some []) \<and>
   load_aff no_files ''/data/tr_TR.aff'' = Inr (Some []) \<and>
   MorphAnalyzer_init no_files [] = Inr \<lparr>dictionary = [], rules = [], rules_by_add = []\<rparr>"
  using loaders_never_none [of no_files "''/data/tr_TR.dic''" "[]"]
  by (simp add: load_dic_def load_aff_def no_files_def)

text \<open>
  C9, as the claim states it, fails: a path whose name holds a NUL character does not
  exist (\<open>os.path.exists\<close> is false), but \<open>open\<close> rejects the name with a \<open>ValueError\<close>,
  which the handler for \<open>OSError\<close> does not catch, so \<open>load_dic\<close> raises.
\<close>

theorem rejected_name_counterexample:
  "\<not> path_exists no_files nul_path \<and> load_dic no_files nul_path = Inl null_byte_error"
  by (simp add: path_exists_def no_files_def nul_path_def load_dic_def)

text \<open>
  C9, amended. For every path whose name has no NUL character and at which there is no
  file, \<open>load_dic\<close> does not raise and returns the empty mapping; and an analyzer whose
  lexicon is empty answers every call of \<open>analyze\<close>, whatever its rules and the engine,
  with diagnostic strings only: the one message for the last word.
\<close>

theorem missing_dictionary_degrades:
  "CHR 0x00 \<notin> set path \<Longrightarrow> fs path = Missing \<Longrightarrow>
   load_dic fs path = Inr (Some []) \<and>
   (\<forall>re self sentences. dictionary self = [] \<longrightarrow>
      analyze re self sentences = Inr [Message (no_analysis (last (words_of sentences)))])"
proof
  assume "fs path = Missing"
  then show "load_dic fs path = Inr (Some [])" by (simp add: load_dic_def)
next
  show "\<forall>re self sentences. dictionary self = [] \<longrightarrow>
      analyze re self sentences = Inr [Message (no_analysis (last (words_of sentences)))]"
  proof (intro allI impI)
    fix re :: regex_engine and self :: MorphAnalyzer and sentences :: string
    assume d: "dictionary self = []"
    have "collect (map (analyze_word re self) (words_of sentences)) = Inr []"
      by (rule collect_all_empty) (simp add: analyze_word_def d)
    then show "analyze re self sentences =
        Inr [Message (no_analysis (last (words_of sentences)))]"
      by (simp add: analyze_unfold)
  qed
qed

theorem missing_dictionary_degrades_witness:
  "CHR 0x00 \<notin> set ''/data/tr_TR.dic'' \<and>
   no_files ''/data/tr_TR.dic'' = Missing \<and>
   load_dic no_files ''/data/tr_TR.dic'' = Inr (Some []) \<and>
   analyze re_sample (analyzer_of [] [(''F1'', [\<lparr>strip = [], add = ''dim'', cond = ''.''\<rparr>])])
     ''Zzz yYy'' = Inr [Message (no_analysis ''yyy'')]"
proof -
  have a: "CHR 0x00 \<notin> set ''/data/tr_TR.dic''" by simp
  have b: "no_files ''/data/tr_TR.dic'' = Missing" by (simp add: no_files_def)
  from missing_dictionary_degrades [where path = "''/data/tr_TR.dic''" and fs = no_files, OF a b]
    a b show ?thesis
    by (simp add: analyzer_of_def words_of_def str_lower_def lower_char_def char_of_def bit_0)
qed

section \<open>The analysis of single words\<close>

text \<open>
  C5. With the lexicon that holds exactly the root g-o-umlaut-r with flag F1 and the rule
  set that holds exactly the rule F1 with empty strip, add \<open>dim\<close> and condition \<open>.\<close>,
  \<open>analyze\<close> of the root followed by \<open>dim\<close> returns exactly one record, with that root,
  stem \<open>dim\<close> and flag number F1, whatever the regular-expression engine.
\<close>

theorem gor_dim_analysis:
  "analyze re gor_analyzer (gor @ ''dim'') =
     Inr [Record \<lparr>root_r = gor, stem = ''dim'', suffixes = [''dim''], flag_number = ''F1''\<rparr>]"
  by (simp add: gor_analyzer_def sample_defs analyze_defs recursive_split.simps)

text \<open>
  C4. The parts of every candidate that the decomposer returns for a suffix, concatenated
  in order, are the suffix; hence the \<open>suffixes\<close> of every record that \<open>analyze\<close> emits,
  concatenated in order, are its \<open>stem\<close>.
\<close>

theorem suffixes_concat_stem:
  "(recursive_split re self st suffix = Inr cands \<longrightarrow> (\<forall>c\<in>set cands. concat c = suffix)) \<and>
   (analyze re self sentences = Inr out \<longrightarrow>
      (\<forall>rr. Record rr \<in> set out \<longrightarrow> concat (suffixes rr) = stem rr))"
proof (intro conjI impI allI ballI)
  fix c
  assume "recursive_split re self st suffix = Inr cands" and "c \<in> set cands"
  then show "concat c = suffix" by (rule recursive_split_concat)
next
  fix rr
  assume "analyze re self sentences = Inr out" and "Record rr \<in> set out"
  from analyze_record_origin [OF this] obtain w item rs r m cands'
    where o: "w \<in> set (words_of sentences) \<and> item \<in> set (dictionary self)
         \<and> length (fst item) < length w \<and> startswith w (fst item)
         \<and> flag_number rr \<in> set (flags (snd item))
         \<and> map_of (rules self) (flag_number rr) = Some rs \<and> r \<in> set rs
         \<and> root_r rr = fst item \<and> stem rr = add r
         \<and> modified_root re (strip r) (fst item) = Inr m \<and> m @ add r = w
         \<and> recursive_split re self m (add r) = Inr cands' \<and> suffixes rr \<in> set cands'"
    by (elim exE)
  from o have "recursive_split re self m (add r) = Inr cands'" "suffixes rr \<in> set cands'"
    by simp_all
  then have "concat (suffixes rr) = add r" by (rule recursive_split_concat)
  with o show "concat (suffixes rr) = stem rr" by simp
qed

theorem suffixes_concat_stem_witness:
  "recursive_split re_sample gor_split_analyzer gor ''dim'' = Inr [[''di'', ''m''], [''dim'']] \<and>
   concat [''di'', ''m''] = ''dim'' \<and>
   analyze re_sample gor_split_analyzer (gor @ ''dim'') =
     Inr [Record \<lparr>root_r = gor, stem = ''dim'', suffixes = [''di'', ''m''], flag_number = ''F1''\<rparr>,
          Record \<lparr>root_r = gor, stem = ''dim'', suffixes = [''dim''], flag_number = ''F1''\<rparr>]"
proof -
  have a: "recursive_split re_sample gor_split_analyzer gor ''dim'' = Inr [[''di'', ''m''], [''dim'']]"
    by code_simp
  have b: "analyze re_sample gor_split_analyzer (gor @ ''dim'') =
     Inr [Record \<lparr>root_r = gor, stem = ''dim'', suffixes = [''di'', ''m''], flag_number = ''F1''\<rparr>,
          Record \<lparr>root_r = gor, stem = ''dim'', suffixes = [''dim''], flag_number = ''F1''\<rparr>]"
    by code_simp
  from suffixes_concat_stem [of re_sample gor_split_analyzer gor "''dim''"
      "[[''di'', ''m''], [''dim'']]" "gor @ ''dim''"] a b
  show ?thesis by simp
qed

text \<open>
  C1. The claim wants one diagnostic for each word without analysis, among the records of
  the other words. The code tests the whole result once, after the loop: for the two
  words \<open>zzz\<close> and the example word it returns the record of the second word and no
  diagnostic for \<open>zzz\<close>; for the two words \<open>zzz\<close> and \<open>yyy\<close> it returns one diagnostic,
  for \<open>yyy\<close>.
\<close>

theorem diagnostics_not_per_word:
  "analyze re_sample gor_analyzer (''zzz '' @ gor @ ''dim'') =
     Inr [Record \<lparr>root_r = gor, stem = ''dim'', suffixes = [''dim''], flag_number = ''F1''\<rparr>] \<and>
   analyze re_sample gor_analyzer ''zzz yyy'' = Inr [Message (no_analysis ''yyy'')]"
  by code_simp

text \<open>
  C3. The claim has the strip text taken from the end of the root. The code tests the
  strip as a pattern at the start of the root and then drops as many letters from the end
  as the strip is long: for the root \<open>ab\<close> and the rule with strip \<open>a\<close> and add \<open>bc\<close> it
  drops the letter \<open>b\<close>, and so the word \<open>abc\<close> is analysed as that root with that rule.
\<close>

theorem strip_removes_other_letter:
  "modified_root re_sample ''a'' ''ab'' = Inr ''a'' \<and>
   analyze re_sample ab_analyzer ''abc'' =
     Inr [Record \<lparr>root_r = ''ab'', stem = ''bc'', suffixes = [''bc''], flag_number = ''F''\<rparr>]"
  by code_simp

text \<open>
  C2, as the claim states it, fails: a rule whose strip applies takes letters off the end
  of the root before its add text is appended, while the record keeps the whole root.
  The lexicon \<open>aa/F\<close> and the affix line \<open>SFX F a ab .\<close> load into \<open>aa_analyzer\<close>;
  the word \<open>aab\<close> gets the record with root \<open>aa\<close> and stem \<open>ab\<close>.
\<close>

theorem root_stem_counterexample:
  "MorphAnalyzer_init (data_files [''1\<newline>'', ''aa/F\<newline>''] [''SFX F a ab .\<newline>'']) [] = Inr aa_analyzer \<and>
   analyze re_sample aa_analyzer ''aab'' =
     Inr [Record \<lparr>root_r = ''aa'', stem = ''ab'', suffixes = [''ab''], flag_number = ''F''\<rparr>] \<and>
   ''aa'' @ ''ab'' \<noteq> ''aab''"
  by code_simp

text \<open>
  C2, amended. For every record that \<open>analyze\<close> emits there are an input word \<open>w\<close> and a
  rule under the record's flag number whose add text is the record's stem, such that the
  root after the strip step of that rule, followed by the stem, is \<open>w\<close>; when the strip of
  the rule is empty, root followed by stem is \<open>w\<close>.
\<close>

theorem record_stem_after_strip:
  assumes "analyze re self sentences = Inr out" and "Record rr \<in> set out"
  shows "\<exists>w\<in>set (words_of sentences). \<exists>rs r m.
           map_of (rules self) (flag_number rr) = Some rs \<and> r \<in> set rs \<and> stem rr = add r \<and>
           modified_root re (strip r) (root_r rr) = Inr m \<and> m @ stem rr = w \<and>
           (strip r = [] \<longrightarrow> root_r rr @ stem rr = w)"
proof -
  from analyze_record_origin [OF assms] obtain w item rs r m cands
    where o: "w \<in> set (words_of sentences) \<and> item \<in> set (dictionary self)
         \<and> length (fst item) < length w \<and> startswith w (fst item)
         \<and> flag_number rr \<in> set (flags (snd item))
         \<and> map_of (rules self) (flag_number rr) = Some rs \<and> r \<in> set rs
         \<and> root_r rr = fst item \<and> stem rr = add r
         \<and> modified_root re (strip r) (fst item) = Inr m \<and> m @ add r = w
         \<and> recursive_split re self m (add r) = Inr cands \<and> suffixes rr \<in> set cands"
    by (elim exE)
  from o have m: "modified_root re (strip r) (root_r rr) = Inr m" by simp
  then have e: "strip r = [] \<longrightarrow> m = root_r rr" by (auto simp: modified_root_def)
  from o m e have "map_of (rules self) (flag_number rr) = Some rs \<and> r \<in> set rs \<and> stem rr = add r \<and>
           modified_root re (strip r) (root_r rr) = Inr m \<and> m @ stem rr = w \<and>
           (strip r = [] \<longrightarrow> root_r rr @ stem rr = w)"
    by auto
  then have "\<exists>rs r m. map_of (rules self) (flag_number rr) = Some rs \<and> r \<in> set rs \<and> stem rr = add r \<and>
           modified_root re (strip r) (root_r rr) = Inr m \<and> m @ stem rr = w \<and>
           (strip r = [] \<longrightarrow> root_r rr @ stem rr = w)"
    by (intro exI)
  with o show ?thesis by (intro bexI [of _ w]) simp_all
qed

theorem record_stem_after_strip_witness:
  "analyze re_sample gor_analyzer (gor @ ''dim'') =
     Inr [Record \<lparr>root_r = gor, stem = ''dim'', suffixes = [''dim''], flag_number = ''F1''\<rparr>] \<and>
   (\<exists>w\<in>set (words_of (gor @ ''dim'')). \<exists>rs r m.
       map_of (rules gor_analyzer) ''F1'' = Some rs \<and> r \<in> set rs \<and> ''dim'' = add r \<and>
       modified_root re_sample (strip r) gor = Inr m \<and> m @ ''dim'' = w \<and>
       (strip r = [] \<longrightarrow> gor @ ''dim'' = w)) \<and>
   analyze re_sample aa_analyzer ''aab'' =
     Inr [Record \<lparr>root_r = ''aa'', stem = ''ab'', suffixes = [''ab''], flag_number = ''F''\<rparr>] \<and>
   (\<exists>w\<in>set (words_of ''aab''). \<exists>rs r m.
       map_of (rules aa_analyzer) ''F'' = Some rs \<and> r \<in> set rs \<and> ''ab'' = add r \<and>
       modified_root re_sample (strip r) ''aa'' = Inr m \<and> m @ ''ab'' = w \<and>
       (strip r = [] \<longrightarrow> ''aa'' @ ''ab'' = w))"
proof -
  have a: "analyze re_sample gor_analyzer (gor @ ''dim'') =
     Inr [Record \<lparr>root_r = gor, stem = ''dim'', suffixes = [''dim''], flag_number = ''F1''\<rparr>]"
    by code_simp
  have b: "Record \<lparr>root_r = gor, stem = ''dim'', suffixes = [''dim''], flag_number = ''F1''\<rparr>
      \<in> set [Record \<lparr>root_r = gor, stem = ''dim'', suffixes = [''dim''], flag_number = ''F1''\<rparr>]"
    by simp
  have c: "analyze re_sample aa_analyzer ''aab'' =
     Inr [Record \<lparr>root_r = ''aa'', stem = ''ab'', suffixes = [''ab''], flag_number = ''F''\<rparr>]"
    by code_simp
  have d: "Record \<lparr>root_r = ''aa'', stem = ''ab'', suffixes = [''ab''], flag_number = ''F''\<rparr>
      \<in> set [Record \<lparr>root_r = ''aa'', stem = ''ab'', suffixes = [''ab''], flag_number = ''F''\<rparr>]"
    by simp
  from record_stem_after_strip [OF a b] record_stem_after_strip [OF c d] a c
  show ?thesis by simp
qed

section \<open>Exceptions that escape the analysis\<close>























lemma recursion_limit_reached:
  "analyze_within 3 re_sample deep_analyzer ''baaa'' = Inl TypeError \<and>
   analyze_within 4 re_sample deep_analyzer ''baaa'' =
     Inr [Record \<lparr>root_r = ''b'', stem = ''aaa'', suffixes = [''a'', ''a'', ''a''],
                  flag_number = ''F''\<rparr>,
          Record \<lparr>root_r = ''b'', stem = ''aaa'', suffixes = [''aaa''],
                  flag_number = ''F''\<rparr>]"
  by code_simp




section \<open>The scorer\<close>

lemma score_parts_sum:
  "score_parts known acc c =
     acc + sum_list (map (\<lambda>p. if p \<in> known then 10 else if length p = 1 then - 1 else - 5) c)"
  by (induction c arbitrary: acc) simp_all

lemma known_suffixes_set:
  "known_suffixes self =
     {a. a \<noteq> [] \<and> (\<exists>r\<in>all_rules (rules self). add r = a)}
       \<union> {''y'', ''n'', ''s'', ''m'', ''k'', ''z'', ''l''}"
  by (auto simp: known_suffixes_def all_rules_def buffer_letters_def)

lemma sorted_hd_least:
  "sorted (map f l) \<Longrightarrow> x \<in> set l \<Longrightarrow> f (hd l) \<le> f x"
  by (cases l) auto

lemma select_best_match_filter:
  "select_best_match self cs =
     filter (\<lambda>c. \<forall>c'\<in>set cs. candidate_score self c' \<le> candidate_score self c) cs"
proof (cases "cs = []")
  case True
  then show ?thesis by (simp add: select_best_match_def)
next
  case False
  define scored where "scored = map (\<lambda>candidate. (candidate_score self candidate, candidate)) cs"
  define srt where "srt = sort_key (\<lambda>x. - fst x) scored"
  define best where "best = fst (hd srt)"
  from False have ne: "srt \<noteq> []"
    by (metis length_sort length_map length_0_conv scored_def srt_def)
  have sel: "select_best_match self cs = map snd (filter (\<lambda>(s, cand). s = best) srt)"
    using False ne by (simp add: select_best_match_def Let_def scored_def srt_def best_def)
  have "filter (\<lambda>(s, cand). s = best) srt = filter (\<lambda>x. - fst x = - best) srt"
    by (rule filter_cong) auto
  also have "\<dots> = filter (\<lambda>x. - fst x = - best) scored"
    unfolding srt_def by (rule sort_key_stable)
  finally have "select_best_match self cs = map snd (filter (\<lambda>x. fst x = best) scored)"
    using sel by simp
  then have eq: "select_best_match self cs = filter (\<lambda>c. candidate_score self c = best) cs"
    by (simp add: scored_def filter_map o_def)
  have "hd srt \<in> set srt" using ne by simp
  then have "hd srt \<in> set scored" by (simp add: srt_def)
  then obtain c0 where c0: "c0 \<in> set cs" "candidate_score self c0 = best"
    by (auto simp: scored_def best_def)
  have le: "candidate_score self c \<le> best" if "c \<in> set cs" for c
  proof -
    from that have "(candidate_score self c, c) \<in> set srt" by (simp add: srt_def scored_def)
    moreover have "sorted (map (\<lambda>x. - fst x) srt)" unfolding srt_def by (rule sorted_sort_key)
    ultimately have "- fst (hd srt) \<le> - fst (candidate_score self c, c)"
      by (rule sorted_hd_least [rotated])
    then show ?thesis by (simp add: best_def)
  qed
  have "filter (\<lambda>c. candidate_score self c = best) cs =
        filter (\<lambda>c. \<forall>c'\<in>set cs. candidate_score self c' \<le> candidate_score self c) cs"
  proof (rule filter_cong [OF refl])
    fix c assume c: "c \<in> set cs"
    show "(candidate_score self c = best) = (\<forall>c'\<in>set cs. candidate_score self c' \<le> candidate_score self c)"
    proof
      assume "candidate_score self c = best"
      with le show "\<forall>c'\<in>set cs. candidate_score self c' \<le> candidate_score self c" by simp
    next
      assume "\<forall>c'\<in>set cs. candidate_score self c' \<le> candidate_score self c"
      with c0 have "best \<le> candidate_score self c" by auto
      with le [OF c] show "candidate_score self c = best" by simp
    qed
  qed
  with eq show ?thesis by simp
qed

text \<open>
  C6. The known suffixes are the non-empty add texts of all rules together with the seven
  letters y, n, s, m, k, z, l. The score of a candidate is the sum over its parts of 10 for
  a known part, of -1 for an unknown part of length 1 and of -5 for any other part, plus
  one half for each part. The scorer returns exactly the candidates whose score is
  maximal among the candidates given, every tie included and in the order given; for no
  candidates it returns none.
\<close>

theorem select_best_match_spec:
  "known_suffixes self =
     {a. a \<noteq> [] \<and> (\<exists>r\<in>all_rules (rules self). add r = a)}
       \<union> {''y'', ''n'', ''s'', ''m'', ''k'', ''z'', ''l''} \<and>
   candidate_score self c =
     of_int (\<Sum>p\<leftarrow>c. if p \<in> known_suffixes self then 10 else if length p = 1 then - 1 else - 5)
       + of_nat (length c) / 2 \<and>
   select_best_match self cs =
     filter (\<lambda>c. \<forall>c'\<in>set cs. candidate_score self c' \<le> candidate_score self c) cs \<and>
   select_best_match self [] = []"
proof (intro conjI)
  show "known_suffixes self =
     {a. a \<noteq> [] \<and> (\<exists>r\<in>all_rules (rules self). add r = a)}
       \<union> {''y'', ''n'', ''s'', ''m'', ''k'', ''z'', ''l''}"
    by (rule known_suffixes_set)
  show "candidate_score self c =
     of_int (\<Sum>p\<leftarrow>c. if p \<in> known_suffixes self then 10 else if length p = 1 then - 1 else - 5)
       + of_nat (length c) / 2"
    by (simp add: candidate_score_def score_parts_sum)
  show "select_best_match self cs =
     filter (\<lambda>c. \<forall>c'\<in>set cs. candidate_score self c' \<le> candidate_score self c) cs"
    by (rule select_best_match_filter)
  show "select_best_match self [] = []"
    by (simp add: select_best_match_def)
qed

theorem select_best_match_spec_witness:
  "candidate_score gor_split_analyzer [''dim''] = 21 / 2 \<and>
   candidate_score gor_split_analyzer [''di'', ''m''] = 21 \<and>
   candidate_score gor_split_analyzer [''d'', ''im''] = - 5 \<and>
   filter (\<lambda>c. \<forall>c'\<in>set [[''dim''], [''di'', ''m''], [''d'', ''im''], [''m'', ''di'']].
                candidate_score gor_split_analyzer c' \<le> candidate_score gor_split_analyzer c)
     [[''dim''], [''di'', ''m''], [''d'', ''im''], [''m'', ''di'']] =
     [[''di'', ''m''], [''m'', ''di'']]"
proof -
  have a: "candidate_score gor_split_analyzer [''dim''] = 21 / 2" by code_simp
  have b: "candidate_score gor_split_analyzer [''di'', ''m''] = 21" by code_simp
  have c: "candidate_score gor_split_analyzer [''d'', ''im''] = - 5" by code_simp
  have d: "select_best_match gor_split_analyzer
             [[''dim''], [''di'', ''m''], [''d'', ''im''], [''m'', ''di'']] =
           [[''di'', ''m''], [''m'', ''di'']]"
    by code_simp
  from select_best_match_spec [of gor_split_analyzer "[''dim'']"
         "[[''dim''], [''di'', ''m''], [''d'', ''im''], [''m'', ''di'']]"]
  have "filter (\<lambda>c. \<forall>c'\<in>set [[''dim''], [''di'', ''m''], [''d'', ''im''], [''m'', ''di'']].
                candidate_score gor_split_analyzer c' \<le> candidate_score gor_split_analyzer c)
     [[''dim''], [''di'', ''m''], [''d'', ''im''], [''m'', ''di'']] =
     select_best_match gor_split_analyzer
       [[''dim''], [''di'', ''m''], [''d'', ''im''], [''m'', ''di'']]"
    by simp
  with a b c d show ?thesis by simp
qed

end
